theory Spec2Isabelle
  imports Main
begin

section \<open>Data model\<close>

text \<open>
  The log panel \<^verbatim>\<open>public/app/features/explore/Logs.tsx\<close> imports its data types and the two
  row transformations \<^verbatim>\<open>dedupLogRows\<close> and \<^verbatim>\<open>filterLogLevels\<close> from
  \<^verbatim>\<open>app/core/logs_model\<close>. The panel reads the fields \<^verbatim>\<open>key\<close>, \<^verbatim>\<open>entry\<close>,
  \<^verbatim>\<open>timestamp\<close>, \<^verbatim>\<open>timeLocal\<close>, \<^verbatim>\<open>timeFromNow\<close>, \<^verbatim>\<open>logLevel\<close>, \<^verbatim>\<open>uniqueLabels\<close>,
  \<^verbatim>\<open>duplicates\<close> and \<^verbatim>\<open>searchWords\<close> of a row, and \<^verbatim>\<open>rows\<close>, \<^verbatim>\<open>meta\<close> and \<^verbatim>\<open>series\<close> of
  a model. The members of the enum \<^verbatim>\<open>LogLevel\<close> are not used by name in the panel, so the
  level is a type parameter; a row without a level has \<open>None\<close>. The series are opaque to
  the panel (they are handed to the graph) and are a type parameter too.
\<close>

text \<open>
  Modelled from the spec: the enum \<^verbatim>\<open>LogsDedupStrategy\<close> of \<^verbatim>\<open>app/core/logs_model\<close>.
  The panel names only \<^verbatim>\<open>LogsDedupStrategy.none\<close>; the specification lists the members
  none, exact, numbers and signature.
\<close>
datatype LogsDedupStrategy = none | exact | numbers | signature

record 'lvl LogRow =
  key :: string
  entry :: string
  timestamp :: string
  timeLocal :: string
  timeFromNow :: string
  logLevel :: "'lvl option"
  uniqueLabels :: "(string \<times> string) list"
  duplicates :: nat
  searchWords :: "string list option"

text \<open>The two kinds of meta item that the panel distinguishes.\<close>
datatype LogsMetaKind = Number | LabelsMap

datatype MetaValue = NumberValue nat | LabelsValue "(string \<times> string) list"

record LogsMetaItem =
  label :: string
  mvalue :: MetaValue
  kind :: LogsMetaKind

record ('lvl, 'ser) LogsModel =
  rows :: "'lvl LogRow list"
  meta :: "LogsMetaItem list"
  series :: 'ser


section \<open>Deduplication\<close>

text \<open>
  Modelled from the spec: the character classes that the normalisation rules of section
  4.1 speak of, digits and alphabetic characters.
\<close>
definition isDigit :: "char \<Rightarrow> bool" where
  "isDigit c = (c \<in> set ''0123456789'')"

definition isAlpha :: "char \<Rightarrow> bool" where
  "isAlpha c =
     (c \<in> set ''abcdefghijklmnopqrstuvwxyz'' \<or> c \<in> set ''ABCDEFGHIJKLMNOPQRSTUVWXYZ'')"

text \<open>
  Modelled from the spec: the normalisation rule of strategy numbers, "raw text with digit
  runs replaced by a placeholder". The specification does not name the placeholder; it is
  the parameter \<open>ph\<close>.
\<close>
function replaceDigitRuns :: "string \<Rightarrow> string \<Rightarrow> string" where
  "replaceDigitRuns ph [] = []"
| "replaceDigitRuns ph (c # cs) =
     (if isDigit c then ph @ replaceDigitRuns ph (dropWhile isDigit cs)
      else c # replaceDigitRuns ph cs)"
  by pat_completeness auto
termination
  by (relation "measure (\<lambda>(ph, s). length s)")
     (auto simp: le_imp_less_Suc length_dropWhile_le)

text \<open>
  Modelled from the spec: the normalised comparison key of a row's text under a strategy
  (exact: the raw text; numbers: digit runs replaced by a placeholder; signature: all
  non-alphabetic characters removed). The specification gives no key for none, where
  \<open>dedupRows\<close> returns before any key is computed; the equation for none is never used by
  \<open>dedupRows\<close>.
\<close>
fun normalizedKey :: "string \<Rightarrow> LogsDedupStrategy \<Rightarrow> string \<Rightarrow> string" where
  "normalizedKey ph exact e = e"
| "normalizedKey ph numbers e = replaceDigitRuns ph e"
| "normalizedKey ph signature e = filter isAlpha e"
| "normalizedKey ph none e = e"

text \<open>
  Modelled from the spec: the single linear pass of the deduplication engine for a
  strategy other than none, with its current candidate \<open>cand\<close>. A following row whose key
  equals the candidate's key increments the candidate's duplicate count and is discarded;
  any other row makes the candidate be emitted and becomes the new candidate. The final
  candidate is emitted at the end. A row that becomes the candidate is a new record that
  has absorbed no row yet, so its duplicate count is 0 (section 3 of the specification:
  deduplication produces new records with updated duplicate counts, and the count of a
  surviving row is the number of rows it absorbed).
\<close>
fun dedupWalk :: "(string \<Rightarrow> string) \<Rightarrow> 'lvl LogRow \<Rightarrow> 'lvl LogRow list \<Rightarrow> 'lvl LogRow list" where
  "dedupWalk k cand [] = [cand]"
| "dedupWalk k cand (r # rs) =
     (if k (entry r) = k (entry cand)
      then dedupWalk k (cand\<lparr>duplicates := duplicates cand + 1\<rparr>) rs
      else cand # dedupWalk k (r\<lparr>duplicates := 0\<rparr>) rs)"

text \<open>
  Modelled from the spec: \<^verbatim>\<open>dedupRows(rows, strategy)\<close>, the contract of section 4.1 for
  the function \<^verbatim>\<open>dedupLogRows\<close> of \<^verbatim>\<open>app/core/logs_model\<close>, which is not among the
  sources. Strategy none returns the input sequence itself.
\<close>
definition dedupRows :: "string \<Rightarrow> 'lvl LogRow list \<Rightarrow> LogsDedupStrategy \<Rightarrow> 'lvl LogRow list" where
  "dedupRows ph rs s =
     (case s of
        none \<Rightarrow> rs
      | _ \<Rightarrow> (case rs of
                [] \<Rightarrow> []
              | r # rest \<Rightarrow> dedupWalk (normalizedKey ph s) (r\<lparr>duplicates := 0\<rparr>) rest))"

text \<open>
  Modelled from the spec: \<^verbatim>\<open>dedupLogRows(model, strategy)\<close> as the panel calls it, on a
  model; the rows are deduplicated, meta items and series pass through.
\<close>
definition dedupLogRows ::
  "string \<Rightarrow> ('lvl, 'ser) LogsModel \<Rightarrow> LogsDedupStrategy \<Rightarrow> ('lvl, 'ser) LogsModel" where
  "dedupLogRows ph logs s = logs\<lparr>rows := dedupRows ph (rows logs) s\<rparr>"

text \<open>
  The rows that a candidate absorbs: each surviving row paired with the rows merged into
  it, in input order. This is the reference against which the pass is compared.
\<close>
function absorbed :: "(string \<Rightarrow> string) \<Rightarrow> 'lvl LogRow list \<Rightarrow> ('lvl LogRow \<times> 'lvl LogRow list) list" where
  "absorbed k [] = []"
| "absorbed k (r # rs) =
     (r, takeWhile (\<lambda>x. k (entry x) = k (entry r)) rs)
       # absorbed k (dropWhile (\<lambda>x. k (entry x) = k (entry r)) rs)"
  by pat_completeness auto
termination
  by (relation "measure (\<lambda>(k, rs). length rs)")
     (auto simp: le_imp_less_Suc length_dropWhile_le)


section \<open>Log-level filter\<close>

text \<open>
  Modelled from the spec: \<^verbatim>\<open>filterLogLevels(model, hidden)\<close>, the contract of section 4.2
  for the function of that name in \<^verbatim>\<open>app/core/logs_model\<close>, which is not among the
  sources. A row is excluded exactly when it has a level and that level is hidden; meta
  items and series pass through.
\<close>
definition filterLogLevels ::
  "('lvl, 'ser) LogsModel \<Rightarrow> 'lvl set \<Rightarrow> ('lvl, 'ser) LogsModel" where
  "filterLogLevels logs hidden =
     logs\<lparr>rows := filter (\<lambda>r. case logLevel r of None \<Rightarrow> True | Some l \<Rightarrow> l \<notin> hidden) (rows logs)\<rparr>"


section \<open>The log panel\<close>

text \<open>
  The component \<^verbatim>\<open>Logs\<close> of \<^verbatim>\<open>Logs.tsx\<close>. Its props are typed \<^verbatim>\<open>data: LogsModel\<close>, so
  the model and its rows are present and the guard \<^verbatim>\<open>data && data.rows\<close> of the source
  holds. Of the props, those that decide what is rendered are kept.
\<close>

definition PREVIEW_LIMIT :: nat where
  "PREVIEW_LIMIT = 100"

record ('lvl, 'ser) LogsProps =
  data :: "('lvl, 'ser) LogsModel"
  highlighterExpressions :: "string list"
  loading :: bool
  scanning :: bool

record 'lvl LogsState =
  dedup :: LogsDedupStrategy
  deferLogs :: bool
  hiddenLogLevels :: "'lvl set"
  renderAll :: bool
  showLabels :: "bool option"
  showLocalTime :: bool
  showUtc :: bool

text \<open>
  The two closures handed to \<^verbatim>\<open>setTimeout\<close>: the one of \<^verbatim>\<open>componentDidMount\<close>, which
  captures the value of \<^verbatim>\<open>renderAll\<close> computed there, and the one of
  \<^verbatim>\<open>componentDidUpdate\<close>.
\<close>
datatype callback = DeferDone bool | RevealAll

record timer =
  handle :: nat
  delay :: nat
  due :: nat
  callback :: callback

text \<open>
  A mounted component together with the part of its environment it acts on: the clock in
  milliseconds, the next free timer handle and the timers that are pending. The handle
  fields are \<open>None\<close> while the source's fields are undefined.
\<close>
record ('lvl, 'ser) Logs =
  props :: "('lvl, 'ser) LogsProps"
  state :: "'lvl LogsState"
  deferLogsTimer :: "nat option"
  renderAllTimer :: "nat option"
  now :: nat
  nextHandle :: nat
  pending :: "timer list"

definition initialState :: "'lvl LogsState" where
  "initialState =
     \<lparr>dedup = none, deferLogs = True, hiddenLogLevels = {}, renderAll = False,
      showLabels = None, showLocalTime = True, showUtc = False\<rparr>"

definition setTimeout :: "callback \<Rightarrow> nat \<Rightarrow> ('lvl, 'ser) Logs \<Rightarrow> nat \<times> ('lvl, 'ser) Logs" where
  "setTimeout cb ms p =
     (nextHandle p,
      p\<lparr>nextHandle := Suc (nextHandle p),
        pending := pending p @ [\<lparr>handle = nextHandle p, delay = ms, due = now p + ms, callback = cb\<rparr>]\<rparr>)"

definition clearTimeout :: "nat option \<Rightarrow> ('lvl, 'ser) Logs \<Rightarrow> ('lvl, 'ser) Logs" where
  "clearTimeout h p =
     (case h of
        None \<Rightarrow> p
      | Some i \<Rightarrow> p\<lparr>pending := filter (\<lambda>tm. handle tm \<noteq> i) (pending p)\<rparr>)"

definition componentDidMount :: "('lvl, 'ser) Logs \<Rightarrow> ('lvl, 'ser) Logs" where
  "componentDidMount p =
     (if deferLogs (state p) then
        (let rowCount = length (rows (data (props p)));
             renderAll = (rowCount \<le> PREVIEW_LIMIT * 2)
         in case setTimeout (DeferDone renderAll) rowCount p of
              (h, p') \<Rightarrow> p'\<lparr>deferLogsTimer := Some h\<rparr>)
      else p)"

definition componentDidUpdate :: "'lvl LogsState \<Rightarrow> ('lvl, 'ser) Logs \<Rightarrow> ('lvl, 'ser) Logs" where
  "componentDidUpdate prevState p =
     (if deferLogs prevState \<and> \<not> deferLogs (state p) \<and> \<not> renderAll (state p) then
        (case setTimeout RevealAll 2000 p of
           (h, p') \<Rightarrow> p'\<lparr>renderAllTimer := Some h\<rparr>)
      else p)"

definition componentWillUnmount :: "('lvl, 'ser) Logs \<Rightarrow> ('lvl, 'ser) Logs" where
  "componentWillUnmount p = clearTimeout (renderAllTimer p) (clearTimeout (deferLogsTimer p) p)"

text \<open>
  \<^verbatim>\<open>this.setState\<close>: the state is replaced and the update hook runs with the previous
  state. The hook acts only when \<^verbatim>\<open>deferLogs\<close> has changed, so an update that the pure
  component would skip for an unchanged state has no effect here either.
\<close>
definition setState :: "('lvl LogsState \<Rightarrow> 'lvl LogsState) \<Rightarrow> ('lvl, 'ser) Logs \<Rightarrow> ('lvl, 'ser) Logs" where
  "setState f p = componentDidUpdate (state p) (p\<lparr>state := f (state p)\<rparr>)"

text \<open>The component as constructed at clock \<open>t0\<close>, with \<open>h0\<close> the next free handle, and then mounted.\<close>
definition construct :: "nat \<Rightarrow> nat \<Rightarrow> ('lvl, 'ser) LogsProps \<Rightarrow> ('lvl, 'ser) Logs" where
  "construct t0 h0 pr =
     \<lparr>props = pr, state = initialState, deferLogsTimer = None, renderAllTimer = None,
      now = t0, nextHandle = h0, pending = []\<rparr>"

definition mount :: "nat \<Rightarrow> nat \<Rightarrow> ('lvl, 'ser) LogsProps \<Rightarrow> ('lvl, 'ser) Logs" where
  "mount t0 h0 pr = componentDidMount (construct t0 h0 pr)"

subsection \<open>Event handlers\<close>

definition onChangeDedup :: "LogsDedupStrategy \<Rightarrow> ('lvl, 'ser) Logs \<Rightarrow> ('lvl, 'ser) Logs" where
  "onChangeDedup d p =
     setState (\<lambda>prevState. if dedup prevState = d then prevState\<lparr>dedup := none\<rparr>
                            else prevState\<lparr>dedup := d\<rparr>) p"

definition onChangeLabels :: "bool \<Rightarrow> ('lvl, 'ser) Logs \<Rightarrow> ('lvl, 'ser) Logs" where
  "onChangeLabels checked p = setState (\<lambda>s. s\<lparr>showLabels := Some checked\<rparr>) p"

definition onChangeLocalTime :: "bool \<Rightarrow> ('lvl, 'ser) Logs \<Rightarrow> ('lvl, 'ser) Logs" where
  "onChangeLocalTime checked p = setState (\<lambda>s. s\<lparr>showLocalTime := checked\<rparr>) p"

definition onChangeUtc :: "bool \<Rightarrow> ('lvl, 'ser) Logs \<Rightarrow> ('lvl, 'ser) Logs" where
  "onChangeUtc checked p = setState (\<lambda>s. s\<lparr>showUtc := checked\<rparr>) p"

text \<open>
  The enum lookup \<^verbatim>\<open>LogLevel[level]\<close> is the parameter \<open>LogLevel\<close>, the enum being declared
  outside the sources.
\<close>
definition onToggleLogLevel ::
  "(string \<Rightarrow> 'lvl) \<Rightarrow> string \<Rightarrow> string set \<Rightarrow> ('lvl, 'ser) Logs \<Rightarrow> ('lvl, 'ser) Logs" where
  "onToggleLogLevel LogLevel rawLevel hiddenRawLevels p =
     setState (\<lambda>s. s\<lparr>hiddenLogLevels := LogLevel ` hiddenRawLevels\<rparr>) p"

text \<open>The parent renders the component again with new props; the update hook runs.\<close>
definition receiveProps :: "('lvl, 'ser) LogsProps \<Rightarrow> ('lvl, 'ser) Logs \<Rightarrow> ('lvl, 'ser) Logs" where
  "receiveProps pr p = componentDidUpdate (state p) (p\<lparr>props := pr\<rparr>)"

subsection \<open>Timers firing\<close>

fun runCallback :: "callback \<Rightarrow> ('lvl, 'ser) Logs \<Rightarrow> ('lvl, 'ser) Logs" where
  "runCallback (DeferDone ra) p = setState (\<lambda>s. s\<lparr>deferLogs := False, renderAll := ra\<rparr>) p"
| "runCallback RevealAll p = setState (\<lambda>s. s\<lparr>renderAll := True\<rparr>) p"

text \<open>The pending timer that is due first; of two with the same due time, the one set first.\<close>
fun earliest :: "timer list \<Rightarrow> timer option" where
  "earliest [] = None"
| "earliest (x # xs) =
     (case earliest xs of
        None \<Rightarrow> Some x
      | Some y \<Rightarrow> if due x \<le> due y then Some x else Some y)"

text \<open>A timer fires: it is no longer pending, the clock has reached its due time, its callback runs.\<close>
definition fire :: "timer \<Rightarrow> ('lvl, 'ser) Logs \<Rightarrow> ('lvl, 'ser) Logs" where
  "fire tm p =
     runCallback (callback tm) (p\<lparr>now := max (now p) (due tm), pending := remove1 tm (pending p)\<rparr>)"

fun weight :: "timer list \<Rightarrow> nat" where
  "weight [] = 0"
| "weight (tm # tms) = (case callback tm of DeferDone ra \<Rightarrow> 2 | RevealAll \<Rightarrow> 1) + weight tms"

lemma weight_append: "weight (xs @ ys) = weight xs + weight ys"
  by (induction xs) simp_all

lemma weight_remove1:
  "tm \<in> set tms \<Longrightarrow>
   weight (remove1 tm tms) + (case callback tm of DeferDone ra \<Rightarrow> 2 | RevealAll \<Rightarrow> 1) = weight tms"
  by (induction tms) auto

lemma earliest_mem: "earliest tms = Some tm \<Longrightarrow> tm \<in> set tms"
  by (induction tms arbitrary: tm) (auto split: option.splits if_splits)

lemma weight_fire:
  "tm \<in> set (pending p) \<Longrightarrow> weight (pending (fire tm p)) < weight (pending p)"
  using weight_remove1 [of tm "pending p"]
  by (cases "callback tm")
     (auto simp: fire_def setState_def componentDidUpdate_def setTimeout_def weight_append)

text \<open>
  The clock runs to time \<open>t\<close>: the timers due by then fire in the order of their due times,
  those set by a firing callback included.
\<close>
function advance :: "nat \<Rightarrow> ('lvl, 'ser) Logs \<Rightarrow> ('lvl, 'ser) Logs" where
  "advance t p =
     (case earliest (pending p) of
        None \<Rightarrow> p\<lparr>now := max (now p) t\<rparr>
      | Some tm \<Rightarrow> if due tm \<le> t then advance t (fire tm p) else p\<lparr>now := max (now p) t\<rparr>)"
  by pat_completeness auto
termination
  by (relation "measure (\<lambda>(t, p). weight (pending p))")
     (auto dest: earliest_mem intro: weight_fire)

declare advance.simps [simp del]

subsection \<open>Events in the life of a mounted component\<close>

datatype ('lvl, 'ser) event =
    ChangeDedup LogsDedupStrategy
  | ChangeLabels bool
  | ChangeLocalTime bool
  | ChangeUtc bool
  | ToggleLogLevel string "string set"
  | NewProps "('lvl, 'ser) LogsProps"
  | Wait nat

fun step :: "(string \<Rightarrow> 'lvl) \<Rightarrow> ('lvl, 'ser) event \<Rightarrow> ('lvl, 'ser) Logs \<Rightarrow> ('lvl, 'ser) Logs" where
  "step L (ChangeDedup d) p = onChangeDedup d p"
| "step L (ChangeLabels b) p = onChangeLabels b p"
| "step L (ChangeLocalTime b) p = onChangeLocalTime b p"
| "step L (ChangeUtc b) p = onChangeUtc b p"
| "step L (ToggleLogLevel raw hiddenRaw) p = onToggleLogLevel L raw hiddenRaw p"
| "step L (NewProps pr) p = receiveProps pr p"
| "step L (Wait ms) p = advance (now p + ms) p"

fun run :: "(string \<Rightarrow> 'lvl) \<Rightarrow> ('lvl, 'ser) event list \<Rightarrow> ('lvl, 'ser) Logs \<Rightarrow> ('lvl, 'ser) Logs" where
  "run L [] p = p"
| "run L (e # es) p = run L es (step L e p)"

subsection \<open>Rendering\<close>

fun decimal :: "nat \<Rightarrow> string" where
  "decimal n =
     (if n < 10 then [''0123456789'' ! n]
      else decimal (n div 10) @ [''0123456789'' ! (n mod 10)])"

text \<open>The props with which a \<^verbatim>\<open>Row\<close> element is created; \<open>rowKey\<close> is its React key.\<close>
record 'lvl RowElement =
  rowKey :: string
  allRows :: "'lvl LogRow list"
  rowHighlighterExpressions :: "string list option"
  row :: "'lvl LogRow"
  rowShowDuplicates :: bool
  rowShowLabels :: bool
  rowShowLocalTime :: bool
  rowShowUtc :: bool

text \<open>
  What \<^verbatim>\<open>render\<close> puts on the display: the meta items (when shown), the \<^verbatim>\<open>Row\<close> elements
  of the rows container in order, the placeholder text of that container, and whether the
  "No logs found." and the scanning notices are shown.
\<close>
record 'lvl LogsView =
  metaItems :: "LogsMetaItem list option"
  rowElements :: "'lvl RowElement list"
  placeholder :: "string option"
  noLogsFound :: bool
  scanNotice :: bool

text \<open>The rows after filtering and deduplication, \<^verbatim>\<open>processedRows\<close> in \<^verbatim>\<open>render\<close>.\<close>
definition processedRows :: "string \<Rightarrow> ('lvl, 'ser) Logs \<Rightarrow> 'lvl LogRow list" where
  "processedRows ph p =
     (let filteredData = filterLogLevels (data (props p)) (hiddenLogLevels (state p));
          dedupedData = dedupLogRows ph filteredData (dedup (state p))
      in rows dedupedData)"

definition render :: "string \<Rightarrow> ('lvl, 'ser) Logs \<Rightarrow> 'lvl LogsView" where
  "render ph p =
     (let st = state p;
          hasData = (length (rows (data (props p))) > 0);
          showDuplicates = (dedup st \<noteq> none);
          filteredData = filterLogLevels (data (props p)) (hiddenLogLevels st);
          dedupedData = dedupLogRows ph filteredData (dedup st);
          dedupCount = foldl (\<lambda>sum r. sum + duplicates r) 0 (rows dedupedData);
          meta' = meta (data (props p)) @
                  (if dedup st \<noteq> none
                   then [\<lparr>label = ''Dedup count'', mvalue = NumberValue dedupCount, kind = Number\<rparr>]
                   else []);
          processed = rows dedupedData;
          firstRows = take PREVIEW_LIMIT processed;
          lastRows = drop PREVIEW_LIMIT processed;
          labelsShown = (case showLabels st of
                           None \<Rightarrow> if hasData
                                   then list_ex (\<lambda>r. length (uniqueLabels r) > 0) (rows (data (props p)))
                                   else True
                         | Some b \<Rightarrow> b);
          element = (\<lambda>hl r. \<lparr>rowKey = key r @ decimal (duplicates r), allRows = processed,
                              rowHighlighterExpressions = hl, row = r,
                              rowShowDuplicates = showDuplicates, rowShowLabels = labelsShown,
                              rowShowLocalTime = showLocalTime st, rowShowUtc = showUtc st\<rparr>)
      in \<lparr>metaItems = (if hasData then Some meta' else None),
          rowElements =
            (if hasData \<and> \<not> deferLogs st
             then map (element (Some (highlighterExpressions (props p)))) firstRows
             else []) @
            (if hasData \<and> \<not> deferLogs st \<and> renderAll st
             then map (element None) lastRows
             else []),
          placeholder =
            (if hasData \<and> deferLogs st
             then Some (''Rendering '' @ decimal (length (rows dedupedData)) @ '' rows...'')
             else None),
          noLogsFound = (\<not> loading (props p) \<and> \<not> hasData \<and> \<not> scanning (props p)),
          scanNotice = scanning (props p)\<rparr>)"

text \<open>
  The phases of the staged renderer as the specification names them, read off the two
  flags of the state.
\<close>
datatype phase = deferring | previewOnly | full

definition phase :: "'lvl LogsState \<Rightarrow> phase" where
  "phase st = (if deferLogs st then deferring else if renderAll st then full else previewOnly)"


subsection \<open>Invariants of the timers\<close>

text \<open>
  Every pending timer is one whose handle the component holds, and no reveal-all timer has
  been set while the component defers.
\<close>
definition ownedTimers :: "('lvl, 'ser) Logs \<Rightarrow> bool" where
  "ownedTimers p =
     ((\<forall>tm \<in> set (pending p). Some (handle tm) = deferLogsTimer p \<or> Some (handle tm) = renderAllTimer p)
      \<and> (deferLogs (state p) \<longrightarrow> renderAllTimer p = None))"

text \<open>
  The state is not the preview phase and no pending callback leads into it.
\<close>
definition noPreview :: "('lvl, 'ser) Logs \<Rightarrow> bool" where
  "noPreview p =
     ((deferLogs (state p) \<or> renderAll (state p))
      \<and> (\<forall>tm \<in> set (pending p). callback tm \<noteq> DeferDone False))"


section \<open>Example data\<close>

text \<open>A row with the given key, text and level, as the upstream builder delivers it.\<close>
definition logRow :: "string \<Rightarrow> string \<Rightarrow> string option \<Rightarrow> string LogRow" where
  "logRow k e lvl =
     \<lparr>key = k, entry = e, timestamp = [], timeLocal = [], timeFromNow = [],
      logLevel = lvl, uniqueLabels = [], duplicates = 0, searchWords = None\<rparr>"

definition logsModel :: "string LogRow list \<Rightarrow> (string, unit) LogsModel" where
  "logsModel rs = \<lparr>rows = rs, meta = [], series = ()\<rparr>"

definition logsProps :: "string LogRow list \<Rightarrow> (string, unit) LogsProps" where
  "logsProps rs =
     \<lparr>data = logsModel rs, highlighterExpressions = [], loading = False, scanning = False\<rparr>"


section \<open>Properties of deduplication\<close>

lemma dedupWalk_count:
  "sum_list (map duplicates (dedupWalk k cand rs)) + length (dedupWalk k cand rs)
     = duplicates cand + Suc (length rs)"
  by (induction rs arbitrary: cand) simp_all

lemma dedupWalk_absorbs:
  "dedupWalk k cand rs =
     cand\<lparr>duplicates := duplicates cand + length (takeWhile (\<lambda>x. k (entry x) = k (entry cand)) rs)\<rparr>
       # (case dropWhile (\<lambda>x. k (entry x) = k (entry cand)) rs of
            [] \<Rightarrow> []
          | r # rest \<Rightarrow> dedupWalk k (r\<lparr>duplicates := 0\<rparr>) rest)"
  by (induction rs arbitrary: cand) simp_all

lemma dedupWalk_absorbed:
  "dedupWalk k (r\<lparr>duplicates := 0\<rparr>) rs =
     map (\<lambda>(c, a). c\<lparr>duplicates := length a\<rparr>) (absorbed k (r # rs))"
proof (induction "length rs" arbitrary: r rs rule: less_induct)
  case less
  let ?P = "\<lambda>x. k (entry x) = k (entry r)"
  show ?case
  proof (cases "dropWhile ?P rs")
    case Nil
    show ?thesis
      by (subst dedupWalk_absorbs) (simp add: Nil del: dropWhile_eq_Nil_conv)
  next
    case (Cons r' rest)
    have "length rest < length rs"
      using length_dropWhile_le [of ?P rs] Cons by simp
    then have "dedupWalk k (r'\<lparr>duplicates := 0\<rparr>) rest =
        map (\<lambda>(c, a). c\<lparr>duplicates := length a\<rparr>) (absorbed k (r' # rest))"
      by (rule less)
    then show ?thesis
      by (subst dedupWalk_absorbs) (simp add: Cons)
  qed
qed

lemma concat_absorbed: "concat (map (\<lambda>(c, a). c # a) (absorbed k rs)) = rs"
  by (induction k rs rule: absorbed.induct) simp_all

lemma absorbed_same_key:
  "(c, a) \<in> set (absorbed k rs) \<Longrightarrow> x \<in> set a \<Longrightarrow> k (entry x) = k (entry c)"
proof (induction k rs rule: absorbed.induct)
  case (1 k)
  then show ?case by simp
next
  case (2 k r rs)
  then show ?case
    by (auto dest: set_takeWhileD)
qed

lemma absorbed_next_differs:
  "absorbed k rs = (c, a) # (c', a') # rest \<Longrightarrow> k (entry c') \<noteq> k (entry c)"
proof (cases rs)
  case Nil
  assume "absorbed k rs = (c, a) # (c', a') # rest"
  with Nil show ?thesis by simp
next
  case (Cons r rs')
  assume eq: "absorbed k rs = (c, a) # (c', a') # rest"
  let ?P = "\<lambda>x. k (entry x) = k (entry r)"
  from eq Cons have c: "c = r" and tl: "absorbed k (dropWhile ?P rs') = (c', a') # rest"
    by auto
  from tl obtain ds where ds: "dropWhile ?P rs' = c' # ds"
    by (cases "dropWhile ?P rs'") auto
  then have "\<not> ?P c'"
    using hd_dropWhile [of ?P rs'] by auto
  with c show ?thesis by simp
qed

lemma dedupRows_absorbed:
  "s \<noteq> none \<Longrightarrow>
   dedupRows ph rs s = map (\<lambda>(c, a). c\<lparr>duplicates := length a\<rparr>) (absorbed (normalizedKey ph s) rs)"
  by (cases s; cases rs) (simp_all add: dedupRows_def dedupWalk_absorbed del: absorbed.simps(2))

lemma dedupRows_count:
  "s \<noteq> none \<Longrightarrow>
   sum_list (map duplicates (dedupRows ph rs s)) + length (dedupRows ph rs s) = length rs"
  by (cases s; cases rs) (simp_all add: dedupRows_def dedupWalk_count)

text \<open>
  C1. For every row sequence \<open>R\<close> and every strategy other than none, the duplicate counts
  of the rows of \<open>dedupRows R s\<close> add up, together with the number of those rows, to the
  length of \<open>R\<close>; and the duplicate count of each surviving row is the number of rows it
  absorbed, itself excluded: the result is the sequence of candidates, each with the
  length of the block of rows merged into it, and the candidates with their blocks make
  up \<open>R\<close>.
\<close>
theorem dedupRows_duplicate_count:
  assumes "s \<noteq> none"
  shows "sum_list (map duplicates (dedupRows ph R s)) + length (dedupRows ph R s) = length R
       \<and> map duplicates (dedupRows ph R s) = map (\<lambda>(c, a). length a) (absorbed (normalizedKey ph s) R)
       \<and> concat (map (\<lambda>(c, a). c # a) (absorbed (normalizedKey ph s) R)) = R"
proof -
  have collapse: "map duplicates (map (\<lambda>(c, a). c\<lparr>duplicates := length a\<rparr>) gs) = map (\<lambda>(c, a). length a) gs"
    for gs :: "('a LogRow \<times> 'a LogRow list) list"
    by (induction gs) auto
  have "map duplicates (dedupRows ph R s) = map (\<lambda>(c, a). length a) (absorbed (normalizedKey ph s) R)"
    unfolding dedupRows_absorbed [OF assms] by (rule collapse)
  then show ?thesis
    using assms dedupRows_count [of s ph R] concat_absorbed [of "normalizedKey ph s" R] by blast
qed

theorem dedupRows_duplicate_count_witness:
  "exact \<noteq> none
   \<and> dedupRows ''#'' [logRow ''1'' ''up'' None, logRow ''2'' ''up'' None, logRow ''3'' ''down'' None] exact
       = [(logRow ''1'' ''up'' None)\<lparr>duplicates := 1\<rparr>, logRow ''3'' ''down'' None]
   \<and> sum_list (map duplicates
        (dedupRows ''#'' [logRow ''1'' ''up'' None, logRow ''2'' ''up'' None, logRow ''3'' ''down'' None] exact))
     + length (dedupRows ''#'' [logRow ''1'' ''up'' None, logRow ''2'' ''up'' None, logRow ''3'' ''down'' None] exact)
     = 3"
  using dedupRows_duplicate_count
    [of exact "''#''" "[logRow ''1'' ''up'' None, logRow ''2'' ''up'' None, logRow ''3'' ''down'' None]"]
  by (simp add: dedupRows_def logRow_def)

text \<open>
  C2. For every row sequence \<open>R\<close>, \<open>dedupRows R none\<close> is \<open>R\<close> itself: the same rows in the
  same order, their duplicate counts untouched. The same holds for the model that the
  panel passes.
\<close>
theorem dedupRows_none_identity:
  "dedupRows ph R none = R \<and> dedupLogRows ph M none = M"
  by (simp add: dedupRows_def dedupLogRows_def)

text \<open>
  C3. Under a strategy other than none only adjacent rows with equal normalised keys are
  merged, in one pass that keeps the order: every output row is a candidate carrying the
  size of the block of rows that follow it directly in the input and have its key, and the
  blocks in order are the input. For \<open>[A, B, A]\<close> with different keys of \<open>A\<close> and \<open>B\<close> the
  result has the three rows, in this order; for three rows of the same text, strategy
  exact gives one row with duplicate count 2.
\<close>
theorem dedupRows_adjacent_only:
  assumes "s \<noteq> none"
  shows "dedupRows ph R s = map (\<lambda>(c, a). c\<lparr>duplicates := length a\<rparr>) (absorbed (normalizedKey ph s) R)
       \<and> concat (map (\<lambda>(c, a). c # a) (absorbed (normalizedKey ph s) R)) = R
       \<and> (\<forall>(c, a) \<in> set (absorbed (normalizedKey ph s) R).
            \<forall>x \<in> set a. normalizedKey ph s (entry x) = normalizedKey ph s (entry c))
       \<and> (normalizedKey ph s (entry A) \<noteq> normalizedKey ph s (entry B) \<longrightarrow>
            dedupRows ph [A, B, A] s = [A\<lparr>duplicates := 0\<rparr>, B\<lparr>duplicates := 0\<rparr>, A\<lparr>duplicates := 0\<rparr>]
            \<and> length (dedupRows ph [A, B, A] s) = 3)
       \<and> (entry A2 = entry A1 \<and> entry A3 = entry A1 \<longrightarrow>
            dedupRows ph [A1, A2, A3] exact = [A1\<lparr>duplicates := 2\<rparr>])"
proof -
  have same: "\<forall>(c, a) \<in> set (absorbed (normalizedKey ph s) R).
      \<forall>x \<in> set a. normalizedKey ph s (entry x) = normalizedKey ph s (entry c)"
    using absorbed_same_key by fastforce
  have aba: "dedupRows ph [A, B, A] s = [A\<lparr>duplicates := 0\<rparr>, B\<lparr>duplicates := 0\<rparr>, A\<lparr>duplicates := 0\<rparr>]"
    if "normalizedKey ph s (entry A) \<noteq> normalizedKey ph s (entry B)"
    using that assms by (cases s) (auto simp: dedupRows_def)
  have aaa: "dedupRows ph [A1, A2, A3] exact = [A1\<lparr>duplicates := 2\<rparr>]"
    if "entry A2 = entry A1 \<and> entry A3 = entry A1"
    using that by (simp add: dedupRows_def)
  show ?thesis
    using assms same aba aaa by (simp add: dedupRows_absorbed concat_absorbed)
qed

theorem dedupRows_adjacent_only_witness:
  "exact \<noteq> none
   \<and> normalizedKey ''#'' exact (entry (logRow ''1'' ''up'' None))
       \<noteq> normalizedKey ''#'' exact (entry (logRow ''2'' ''down'' None))
   \<and> dedupRows ''#'' [logRow ''1'' ''up'' None, logRow ''2'' ''down'' None, logRow ''1'' ''up'' None] exact
       = [logRow ''1'' ''up'' None, logRow ''2'' ''down'' None, logRow ''1'' ''up'' None]
   \<and> dedupRows ''#'' [logRow ''1'' ''up'' None, logRow ''1'' ''up'' None, logRow ''1'' ''up'' None] exact
       = [(logRow ''1'' ''up'' None)\<lparr>duplicates := 2\<rparr>]
   \<and> absorbed (normalizedKey ''#'' numbers)
         [logRow ''1'' ''took 15 ms'' None, logRow ''2'' ''took 7 ms'' None, logRow ''3'' ''done'' None]
       = [(logRow ''1'' ''took 15 ms'' None, [logRow ''2'' ''took 7 ms'' None]),
          (logRow ''3'' ''done'' None, [])]
   \<and> dedupRows ''#''
         [logRow ''1'' ''took 15 ms'' None, logRow ''2'' ''took 7 ms'' None, logRow ''3'' ''done'' None]
         numbers
       = [(logRow ''1'' ''took 15 ms'' None)\<lparr>duplicates := 1\<rparr>, logRow ''3'' ''done'' None]"
proof -
  have keys: "normalizedKey ''#'' numbers ''took 15 ms'' = ''took # ms''"
    "normalizedKey ''#'' numbers ''took 7 ms'' = ''took # ms''"
    "normalizedKey ''#'' numbers ''done'' = ''done''"
    by (simp_all add: isDigit_def)
  have groups: "absorbed (normalizedKey ''#'' numbers)
         [logRow ''1'' ''took 15 ms'' None, logRow ''2'' ''took 7 ms'' None, logRow ''3'' ''done'' None]
       = [(logRow ''1'' ''took 15 ms'' None, [logRow ''2'' ''took 7 ms'' None]),
          (logRow ''3'' ''done'' None, [])]"
    by (simp add: logRow_def keys del: normalizedKey.simps)
  let ?A = "logRow ''1'' ''up'' None"
  let ?B = "logRow ''2'' ''down'' None"
  let ?R = "[logRow ''1'' ''took 15 ms'' None, logRow ''2'' ''took 7 ms'' None, logRow ''3'' ''done'' None]"
  have fresh: "(logRow k e l)\<lparr>duplicates := 0\<rparr> = logRow k e l" for k e l
    by (simp add: logRow_def)
  have differ: "normalizedKey ''#'' exact (entry ?A) \<noteq> normalizedKey ''#'' exact (entry ?B)"
    by (simp add: logRow_def)
  have same: "entry ?A = entry ?A \<and> entry ?A = entry ?A"
    by simp
  have "dedupRows ''#'' [?A, ?B, ?A] exact
      = [?A\<lparr>duplicates := 0\<rparr>, ?B\<lparr>duplicates := 0\<rparr>, ?A\<lparr>duplicates := 0\<rparr>]"
    and aaa: "dedupRows ''#'' [?A, ?A, ?A] exact = [?A\<lparr>duplicates := 2\<rparr>]"
    using dedupRows_adjacent_only [of exact "''#''" ?R ?A ?B ?A ?A ?A] differ same
    by blast+
  then have aba: "dedupRows ''#'' [?A, ?B, ?A] exact = [?A, ?B, ?A]"
    unfolding fresh by blast
  have "dedupRows ''#'' ?R numbers
      = map (\<lambda>(c, a). c\<lparr>duplicates := length a\<rparr>) (absorbed (normalizedKey ''#'' numbers) ?R)"
    using dedupRows_adjacent_only [of numbers "''#''" ?R ?A ?B ?A ?A ?A] by blast
  then have num: "dedupRows ''#'' ?R numbers
      = [(logRow ''1'' ''took 15 ms'' None)\<lparr>duplicates := 1\<rparr>, logRow ''3'' ''done'' None]"
    unfolding groups by (simp add: fresh)
  show ?thesis
    using differ aba aaa groups num by blast
qed

section \<open>Properties of the log-level filter\<close>

text \<open>
  C4. For every model \<open>M\<close> and every set \<open>hidden\<close> of levels, the rows of
  \<open>filterLogLevels M hidden\<close> contain no row whose level is in \<open>hidden\<close>; the rows without a
  level are all kept; the result is built from the rows of \<open>M\<close>, unchanged and in their
  order, with the meta items and series of \<open>M\<close>, the function being a pure function of its
  arguments; and \<open>filterLogLevels M {}\<close> is \<open>M\<close>.
\<close>
theorem filterLogLevels_hides:
  "(\<forall>r \<in> set (rows (filterLogLevels M hidden)). \<forall>l. logLevel r = Some l \<longrightarrow> l \<notin> hidden)
   \<and> filter (\<lambda>r. logLevel r = None) (rows (filterLogLevels M hidden))
       = filter (\<lambda>r. logLevel r = None) (rows M)
   \<and> (\<exists>keep. rows (filterLogLevels M hidden) = filter keep (rows M))
   \<and> meta (filterLogLevels M hidden) = meta M
   \<and> series (filterLogLevels M hidden) = series M
   \<and> filterLogLevels M {} = M"
proof -
  have none_kept: "filter (\<lambda>r. logLevel r = None) (rows (filterLogLevels M hidden))
       = filter (\<lambda>r. logLevel r = None) (rows M)"
    unfolding filterLogLevels_def
    by (auto intro!: filter_cong split: option.splits)
  have unchanged: "filterLogLevels M {} = M"
    unfolding filterLogLevels_def
    by (simp add: option.case_eq_if)
  have built: "\<exists>keep. rows (filterLogLevels M hidden) = filter keep (rows M)"
    unfolding filterLogLevels_def by auto
  show ?thesis
    using none_kept unchanged built by (auto simp: filterLogLevels_def)
qed

theorem filterLogLevels_hides_witness:
  "rows (filterLogLevels
      (logsModel [logRow ''1'' ''a'' (Some ''error''), logRow ''2'' ''b'' None,
                  logRow ''3'' ''c'' (Some ''info'')]) {''error''})
     = [logRow ''2'' ''b'' None, logRow ''3'' ''c'' (Some ''info'')]
   \<and> filterLogLevels
      (logsModel [logRow ''1'' ''a'' (Some ''error''), logRow ''2'' ''b'' None,
                  logRow ''3'' ''c'' (Some ''info'')]) {}
     = logsModel [logRow ''1'' ''a'' (Some ''error''), logRow ''2'' ''b'' None,
                  logRow ''3'' ''c'' (Some ''info'')]"
  using filterLogLevels_hides
    [of "logsModel [logRow ''1'' ''a'' (Some ''error''), logRow ''2'' ''b'' None,
                    logRow ''3'' ''c'' (Some ''info'')]" "{''error''}"]
  by (simp add: filterLogLevels_def logsModel_def logRow_def)


section \<open>Properties of the panel\<close>

lemma componentDidUpdate_same_defer:
  "deferLogs prevState = deferLogs (state p) \<Longrightarrow> componentDidUpdate prevState p = p"
  by (auto simp: componentDidUpdate_def)

lemma mount_eq:
  "mount t0 h0 pr =
     \<lparr>props = pr, state = initialState, deferLogsTimer = Some h0, renderAllTimer = None,
      now = t0, nextHandle = Suc h0,
      pending = [\<lparr>handle = h0, delay = length (rows (data pr)),
                  due = t0 + length (rows (data pr)),
                  callback = DeferDone (length (rows (data pr)) \<le> PREVIEW_LIMIT * 2)\<rparr>]\<rparr>"
  by (simp add: mount_def construct_def componentDidMount_def setTimeout_def initialState_def Let_def)

lemma advance_idle:
  "pending p = [] \<Longrightarrow> advance t p = p\<lparr>now := max (now p) t\<rparr>"
  by (subst advance.simps) simp

lemma advance_single_early:
  "pending p = [tm] \<Longrightarrow> t < due tm \<Longrightarrow> advance t p = p\<lparr>now := max (now p) t\<rparr>"
  by (subst advance.simps) simp

lemma advance_single_due:
  "pending p = [tm] \<Longrightarrow> due tm \<le> t \<Longrightarrow> advance t p = advance t (fire tm p)"
  by (subst advance.simps) simp

lemma fire_DeferDone:
  "callback tm = DeferDone ra \<Longrightarrow> deferLogs (state p) \<Longrightarrow>
   fire tm p =
     (if ra then
        p\<lparr>state := (state p)\<lparr>deferLogs := False, renderAll := True\<rparr>,
          now := max (now p) (due tm), pending := remove1 tm (pending p)\<rparr>
      else
        p\<lparr>state := (state p)\<lparr>deferLogs := False, renderAll := False\<rparr>,
          now := max (now p) (due tm),
          pending := remove1 tm (pending p) @
            [\<lparr>handle = nextHandle p, delay = 2000, due = max (now p) (due tm) + 2000,
              callback = RevealAll\<rparr>],
          nextHandle := Suc (nextHandle p),
          renderAllTimer := Some (nextHandle p)\<rparr>)"
  by (simp add: fire_def setState_def componentDidUpdate_def setTimeout_def)

lemma fire_RevealAll:
  "callback tm = RevealAll \<Longrightarrow>
   fire tm p =
     p\<lparr>state := (state p)\<lparr>renderAll := True\<rparr>,
       now := max (now p) (due tm), pending := remove1 tm (pending p)\<rparr>"
  by (simp add: fire_def setState_def componentDidUpdate_def setTimeout_def)

lemma advance_mount_early:
  "t < t0 + length (rows (data pr)) \<Longrightarrow>
   advance t (mount t0 h0 pr) = (mount t0 h0 pr)\<lparr>now := max t0 t\<rparr>"
  by (simp add: mount_eq advance_single_early)

lemma advance_mount_all:
  assumes "length (rows (data pr)) \<le> PREVIEW_LIMIT * 2" and "t0 + length (rows (data pr)) \<le> t"
  shows "advance t (mount t0 h0 pr) =
     (mount t0 h0 pr)\<lparr>state := initialState\<lparr>deferLogs := False, renderAll := True\<rparr>,
                       now := t, pending := []\<rparr>"
proof -
  let ?tm = "\<lparr>handle = h0, delay = length (rows (data pr)),
              due = t0 + length (rows (data pr)), callback = DeferDone True\<rparr>"
  have p: "pending (mount t0 h0 pr) = [?tm]"
    using assms(1) by (simp add: mount_eq)
  have "advance t (mount t0 h0 pr) = advance t (fire ?tm (mount t0 h0 pr))"
    using p assms(2) by (intro advance_single_due) simp_all
  also have "fire ?tm (mount t0 h0 pr) =
      (mount t0 h0 pr)\<lparr>state := initialState\<lparr>deferLogs := False, renderAll := True\<rparr>,
                        now := t0 + length (rows (data pr)), pending := []\<rparr>"
    using assms(1) by (subst fire_DeferDone [where ra = True]) (simp_all add: mount_eq initialState_def)
  also have "advance t \<dots> =
      (mount t0 h0 pr)\<lparr>state := initialState\<lparr>deferLogs := False, renderAll := True\<rparr>,
                        now := t, pending := []\<rparr>"
    using assms(2) by (subst advance_idle) (simp_all add: mount_eq max_def)
  finally show ?thesis .
qed

lemma advance_mount_preview:
  assumes "\<not> length (rows (data pr)) \<le> PREVIEW_LIMIT * 2"
    and "t0 + length (rows (data pr)) \<le> t"
    and "t < t0 + length (rows (data pr)) + 2000"
  shows "advance t (mount t0 h0 pr) =
     (mount t0 h0 pr)\<lparr>state := initialState\<lparr>deferLogs := False, renderAll := False\<rparr>,
                       now := t,
                       pending := [\<lparr>handle = Suc h0, delay = 2000,
                                    due = t0 + length (rows (data pr)) + 2000,
                                    callback = RevealAll\<rparr>],
                       nextHandle := Suc (Suc h0),
                       renderAllTimer := Some (Suc h0)\<rparr>"
proof -
  let ?tm = "\<lparr>handle = h0, delay = length (rows (data pr)),
              due = t0 + length (rows (data pr)), callback = DeferDone False\<rparr>"
  let ?rv = "\<lparr>handle = Suc h0, delay = 2000,
              due = t0 + length (rows (data pr)) + 2000, callback = RevealAll\<rparr>"
  let ?p1 = "(mount t0 h0 pr)\<lparr>state := initialState\<lparr>deferLogs := False, renderAll := False\<rparr>,
                        now := t0 + length (rows (data pr)),
                        pending := [?rv],
                        nextHandle := Suc (Suc h0),
                        renderAllTimer := Some (Suc h0)\<rparr>"
  have p: "pending (mount t0 h0 pr) = [?tm]"
    using assms(1) by (simp add: mount_eq)
  have "advance t (mount t0 h0 pr) = advance t (fire ?tm (mount t0 h0 pr))"
    using p assms(2) by (intro advance_single_due) simp_all
  also have "fire ?tm (mount t0 h0 pr) = ?p1"
    using assms(1) by (subst fire_DeferDone [where ra = False]) (simp_all add: mount_eq initialState_def)
  also have "advance t ?p1 = ?p1\<lparr>now := max (now ?p1) t\<rparr>"
    using assms(3) by (intro advance_single_early [where tm = ?rv]) simp_all
  finally show ?thesis
    using assms(2) by (simp add: mount_eq max_def)
qed

lemma advance_mount_revealed:
  assumes "\<not> length (rows (data pr)) \<le> PREVIEW_LIMIT * 2"
    and "t0 + length (rows (data pr)) + 2000 \<le> t"
  shows "advance t (mount t0 h0 pr) =
     (mount t0 h0 pr)\<lparr>state := initialState\<lparr>deferLogs := False, renderAll := True\<rparr>,
                       now := t,
                       pending := [],
                       nextHandle := Suc (Suc h0),
                       renderAllTimer := Some (Suc h0)\<rparr>"
proof -
  let ?tm = "\<lparr>handle = h0, delay = length (rows (data pr)),
              due = t0 + length (rows (data pr)), callback = DeferDone False\<rparr>"
  let ?rv = "\<lparr>handle = Suc h0, delay = 2000,
              due = t0 + length (rows (data pr)) + 2000, callback = RevealAll\<rparr>"
  let ?p1 = "(mount t0 h0 pr)\<lparr>state := initialState\<lparr>deferLogs := False, renderAll := False\<rparr>,
                        now := t0 + length (rows (data pr)),
                        pending := [?rv],
                        nextHandle := Suc (Suc h0),
                        renderAllTimer := Some (Suc h0)\<rparr>"
  let ?p2 = "(mount t0 h0 pr)\<lparr>state := initialState\<lparr>deferLogs := False, renderAll := True\<rparr>,
                        now := t0 + length (rows (data pr)) + 2000,
                        pending := [],
                        nextHandle := Suc (Suc h0),
                        renderAllTimer := Some (Suc h0)\<rparr>"
  have p: "pending (mount t0 h0 pr) = [?tm]"
    using assms(1) by (simp add: mount_eq)
  have "advance t (mount t0 h0 pr) = advance t (fire ?tm (mount t0 h0 pr))"
    using p assms(2) by (intro advance_single_due) simp_all
  also have "fire ?tm (mount t0 h0 pr) = ?p1"
    using assms(1) by (subst fire_DeferDone [where ra = False]) (simp_all add: mount_eq initialState_def)
  also have "advance t ?p1 = advance t (fire ?rv ?p1)"
    using assms(2) by (intro advance_single_due) simp_all
  also have "fire ?rv ?p1 = ?p2"
    by (subst fire_RevealAll) (simp_all add: mount_eq initialState_def max_def)
  also have "advance t ?p2 = ?p2\<lparr>now := max (now ?p2) t\<rparr>"
    by (intro advance_idle) simp
  finally show ?thesis
    using assms(2) by (simp add: mount_eq max_def)
qed


lemma advance_invariant:
  assumes fire: "\<And>tm q. I q \<Longrightarrow> tm \<in> set (pending q) \<Longrightarrow> I (fire tm q)"
    and clock: "\<And>q u. I q \<Longrightarrow> I (q\<lparr>now := u\<rparr>)"
  shows "I p \<Longrightarrow> I (advance t p)"
proof (induction t p rule: advance.induct)
  case (1 t p)
  show ?case
  proof (cases "earliest (pending p)")
    case None
    then show ?thesis
      using "1.prems" by (subst advance.simps) (simp add: clock)
  next
    case (Some tm)
    show ?thesis
    proof (cases "due tm \<le> t")
      case True
      have "I (fire tm p)"
        using "1.prems" Some by (intro fire earliest_mem)
      then have "I (advance t (fire tm p))"
        using Some True "1.IH" by blast
      then show ?thesis
        using Some True by (subst advance.simps) simp
    next
      case False
      then show ?thesis
        using "1.prems" Some by (subst advance.simps) (simp add: clock)
    qed
  qed
qed

lemma user_events:
  "onChangeDedup d p = p\<lparr>state := (state p)\<lparr>dedup := (if dedup (state p) = d then none else d)\<rparr>\<rparr>"
  "onChangeLabels b p = p\<lparr>state := (state p)\<lparr>showLabels := Some b\<rparr>\<rparr>"
  "onChangeLocalTime b p = p\<lparr>state := (state p)\<lparr>showLocalTime := b\<rparr>\<rparr>"
  "onChangeUtc b p = p\<lparr>state := (state p)\<lparr>showUtc := b\<rparr>\<rparr>"
  "onToggleLogLevel L raw hiddenRaw p = p\<lparr>state := (state p)\<lparr>hiddenLogLevels := L ` hiddenRaw\<rparr>\<rparr>"
  "receiveProps pr p = p\<lparr>props := pr\<rparr>"
  by (simp_all add: onChangeDedup_def onChangeLabels_def onChangeLocalTime_def onChangeUtc_def
        onToggleLogLevel_def receiveProps_def setState_def componentDidUpdate_same_defer)

lemma fire_ownedTimers:
  assumes "ownedTimers p" and "tm \<in> set (pending p)"
  shows "ownedTimers (fire tm p)"
proof (cases "callback tm")
  case (DeferDone ra)
  show ?thesis
    using assms subsetD [OF set_remove1_subset [of tm "pending p"]]
    by (auto simp: ownedTimers_def fire_def DeferDone setState_def componentDidUpdate_def
          setTimeout_def)
next
  case RevealAll
  show ?thesis
    using assms subsetD [OF set_remove1_subset [of tm "pending p"]]
    by (auto simp: ownedTimers_def fire_RevealAll [OF RevealAll])
qed

lemma fire_noPreview:
  assumes "noPreview p" and "tm \<in> set (pending p)"
  shows "noPreview (fire tm p)"
proof (cases "callback tm")
  case (DeferDone ra)
  with assms have ra: "ra" by (auto simp: noPreview_def)
  show ?thesis
    using assms subsetD [OF set_remove1_subset [of tm "pending p"]] ra
    by (auto simp: noPreview_def fire_def DeferDone setState_def componentDidUpdate_def
          setTimeout_def)
next
  case RevealAll
  show ?thesis
    using assms subsetD [OF set_remove1_subset [of tm "pending p"]]
    by (auto simp: noPreview_def fire_RevealAll [OF RevealAll])
qed

lemma step_ownedTimers: "ownedTimers p \<Longrightarrow> ownedTimers (step L e p)"
proof (cases e)
  case (Wait ms)
  assume "ownedTimers p"
  then have "ownedTimers (advance (now p + ms) p)"
    by (rule advance_invariant [rotated -1]) (simp_all add: fire_ownedTimers, simp add: ownedTimers_def)
  then show ?thesis by (simp add: Wait)
qed (simp_all add: user_events ownedTimers_def)

lemma step_noPreview: "noPreview p \<Longrightarrow> noPreview (step L e p)"
proof (cases e)
  case (Wait ms)
  assume "noPreview p"
  then have "noPreview (advance (now p + ms) p)"
    by (rule advance_invariant [rotated -1]) (simp_all add: fire_noPreview, simp add: noPreview_def)
  then show ?thesis by (simp add: Wait)
qed (simp_all add: user_events noPreview_def)

lemma run_ownedTimers: "ownedTimers p \<Longrightarrow> ownedTimers (run L es p)"
  by (induction es arbitrary: p) (simp_all add: step_ownedTimers)

lemma run_noPreview: "noPreview p \<Longrightarrow> noPreview (run L es p)"
  by (induction es arbitrary: p) (simp_all add: step_noPreview)

lemma mount_ownedTimers: "ownedTimers (mount t0 h0 pr)"
  by (simp add: mount_eq ownedTimers_def)

lemma mount_noPreview:
  "length (rows (data pr)) \<le> PREVIEW_LIMIT * 2 \<Longrightarrow> noPreview (mount t0 h0 pr)"
  by (simp add: mount_eq noPreview_def initialState_def)

lemma unmount_pending: "ownedTimers p \<Longrightarrow> pending (componentWillUnmount p) = []"
  by (auto simp: ownedTimers_def componentWillUnmount_def clearTimeout_def filter_empty_conv
        split: option.splits)

lemma unmount_state: "state (componentWillUnmount p) = state p"
  by (simp add: componentWillUnmount_def clearTimeout_def split: option.splits)

lemma processedRows_empty: "rows (data (props p)) = [] \<Longrightarrow> processedRows ph p = []"
  by (cases "dedup (state p)")
     (simp_all add: processedRows_def filterLogLevels_def dedupLogRows_def dedupRows_def)

lemma render_rows:
  "map row (rowElements (render ph p)) =
     (if deferLogs (state p) then []
      else if renderAll (state p) then processedRows ph p
      else take PREVIEW_LIMIT (processedRows ph p))"
proof (cases "rows (data (props p)) = []")
  case True
  then show ?thesis
    by (simp add: processedRows_empty) (simp add: render_def Let_def)
next
  case False
  then show ?thesis
    by (simp add: render_def processedRows_def Let_def o_def)
qed

lemma render_placeholder:
  "placeholder (render ph p) =
     (if rows (data (props p)) \<noteq> [] \<and> deferLogs (state p)
      then Some (''Rendering '' @ decimal (length (processedRows ph p)) @ '' rows...'')
      else None)"
  by (simp add: render_def processedRows_def Let_def del: decimal.simps)

lemma processedRows_initial:
  "dedup (state p) = none \<Longrightarrow> hiddenLogLevels (state p) = {} \<Longrightarrow>
   processedRows ph p = rows (data (props p))"
  by (simp add: processedRows_def filterLogLevels_def dedupLogRows_def dedupRows_def
        option.case_eq_if)

lemma render_deferring: "deferLogs (state p) \<Longrightarrow> rowElements (render ph p) = []"
  by (simp add: render_def Let_def)

lemma phase_simps:
  "phase (st\<lparr>deferLogs := False, renderAll := True\<rparr>) = full"
  "phase (st\<lparr>deferLogs := False, renderAll := False\<rparr>) = previewOnly"
  "(phase st = deferring) = deferLogs st"
  "(phase st = previewOnly) = (\<not> deferLogs st \<and> \<not> renderAll st)"
  "(phase st = full) = (\<not> deferLogs st \<and> renderAll st)"
  by (auto simp: phase_def)

text \<open>
  C5. On mounting with \<open>N\<close> rows the flag captured by the deferred callback is
  \<open>N \<le> 2 * PREVIEW_LIMIT\<close>, with \<open>PREVIEW_LIMIT = 100\<close>. A callback that carries the flag
  true takes a deferring component to the phase full and sets no further timer. When
  \<open>N \<le> 2 * PREVIEW_LIMIT\<close>, no sequence of events after mounting reaches the phase
  previewOnly; the component is deferring before \<open>N\<close> ms have passed and full from then on.
\<close>
theorem small_row_set_skips_preview:
  "PREVIEW_LIMIT = 100
   \<and> map callback (pending (mount t0 h0 pr)) = [DeferDone (length (rows (data pr)) \<le> 2 * PREVIEW_LIMIT)]
   \<and> (callback tm = DeferDone True \<longrightarrow>
        phase (state (fire tm p)) = full \<and> pending (fire tm p) = remove1 tm (pending p))
   \<and> (length (rows (data pr)) \<le> 2 * PREVIEW_LIMIT \<longrightarrow>
        phase (state (run L es (mount t0 h0 pr))) \<noteq> previewOnly
        \<and> (t < t0 + length (rows (data pr)) \<longrightarrow>
             phase (state (advance t (mount t0 h0 pr))) = deferring)
        \<and> (t0 + length (rows (data pr)) \<le> t \<longrightarrow>
             phase (state (advance t (mount t0 h0 pr))) = full))"
proof -
  have flag: "map callback (pending (mount t0 h0 pr))
      = [DeferDone (length (rows (data pr)) \<le> 2 * PREVIEW_LIMIT)]"
    by (simp add: mount_eq mult.commute)
  have direct: "phase (state (fire tm p)) = full \<and> pending (fire tm p) = remove1 tm (pending p)"
    if "callback tm = DeferDone True"
    using that
    by (simp add: fire_def setState_def componentDidUpdate_def phase_def)
  have never: "phase (state (run L es (mount t0 h0 pr))) \<noteq> previewOnly"
    if "length (rows (data pr)) \<le> 2 * PREVIEW_LIMIT"
  proof -
    from that have "noPreview (run L es (mount t0 h0 pr))"
      by (intro run_noPreview mount_noPreview) (simp add: mult.commute)
    then show ?thesis
      by (auto simp: noPreview_def phase_simps)
  qed
  have before: "phase (state (advance t (mount t0 h0 pr))) = deferring"
    if "t < t0 + length (rows (data pr))"
    using that by (simp add: advance_mount_early phase_simps) (simp add: mount_eq initialState_def)
  have after: "phase (state (advance t (mount t0 h0 pr))) = full"
    if "length (rows (data pr)) \<le> 2 * PREVIEW_LIMIT" and "t0 + length (rows (data pr)) \<le> t"
    using that by (simp add: advance_mount_all mult.commute phase_simps)
  show ?thesis
    using flag direct never before after by (simp add: PREVIEW_LIMIT_def)
qed

theorem small_row_set_skips_preview_witness:
  "phase (state (advance 49 (mount 0 0 (logsProps (replicate 50 (logRow ''k'' ''e'' None)))))) = deferring
   \<and> phase (state (advance 50 (mount 0 0 (logsProps (replicate 50 (logRow ''k'' ''e'' None)))))) = full
   \<and> phase (state (run (\<lambda>l. l) [Wait 10, ChangeDedup exact, Wait 100]
        (mount 0 0 (logsProps (replicate 50 (logRow ''k'' ''e'' None)))))) \<noteq> previewOnly
   \<and> pending (mount 0 0 (logsProps (replicate 50 (logRow ''k'' ''e'' None))))
       = [\<lparr>handle = 0, delay = 50, due = 50, callback = DeferDone True\<rparr>]
   \<and> phase (state (fire \<lparr>handle = 0, delay = 50, due = 50, callback = DeferDone True\<rparr>
        (mount 0 0 (logsProps (replicate 50 (logRow ''k'' ''e'' None)))))) = full
   \<and> pending (fire \<lparr>handle = 0, delay = 50, due = 50, callback = DeferDone True\<rparr>
        (mount 0 0 (logsProps (replicate 50 (logRow ''k'' ''e'' None))))) = []"
proof -
  let ?pr = "logsProps (replicate 50 (logRow ''k'' ''e'' None))"
  let ?tm = "\<lparr>handle = 0, delay = 50, due = 50, callback = DeferDone True\<rparr>"
  have len: "length (rows (data ?pr)) = 50"
    by (simp add: logsProps_def logsModel_def)
  have n: "length (rows (data ?pr)) \<le> 2 * PREVIEW_LIMIT"
    by (simp add: len PREVIEW_LIMIT_def)
  have before: "49 < 0 + length (rows (data ?pr))"
    and after: "0 + length (rows (data ?pr)) \<le> 50"
    by (simp_all add: len)
  have timer: "pending (mount 0 0 ?pr) = [?tm]"
    unfolding mount_eq len by (simp add: PREVIEW_LIMIT_def)
  have cb: "callback ?tm = DeferDone True"
    by simp
  have gone: "remove1 ?tm (pending (mount 0 0 ?pr)) = []"
    unfolding timer by simp
  note th = small_row_set_skips_preview [of 0 0 ?pr ?tm "mount 0 0 ?pr" "\<lambda>l. l"]
  have "phase (state (advance 49 (mount 0 0 ?pr))) = deferring"
    "phase (state (advance 50 (mount 0 0 ?pr))) = full"
    "phase (state (run (\<lambda>l. l) [Wait 10, ChangeDedup exact, Wait 100] (mount 0 0 ?pr))) \<noteq> previewOnly"
    "phase (state (fire ?tm (mount 0 0 ?pr))) = full"
    "pending (fire ?tm (mount 0 0 ?pr)) = remove1 ?tm (pending (mount 0 0 ?pr))"
    using n before after cb
      th [of "[Wait 10, ChangeDedup exact, Wait 100]" 49] th [of "[]" 50]
    by blast+
  then show ?thesis
    unfolding gone using timer by blast
qed

text \<open>
  C6. When the row count \<open>N\<close> at mounting exceeds \<open>2 * PREVIEW_LIMIT\<close>, the deferred callback
  carries the flag false. Such a callback takes a deferring component to the phase
  previewOnly, in which the rows rendered are the first \<open>PREVIEW_LIMIT\<close> processed rows,
  and sets the reveal-all timer with a delay of 2000 ms. After mounting, the component is
  in previewOnly from \<open>N\<close> ms on, showing the first 100 rows, with that timer pending, and
  in the phase full, showing all rows, from 2000 ms later on.
\<close>
theorem large_row_set_previews_then_reveals:
  assumes "2 * PREVIEW_LIMIT < length (rows (data pr))"
  shows "map callback (pending (mount t0 h0 pr)) = [DeferDone False]
   \<and> (deferLogs (state p) \<and> callback tm = DeferDone False \<longrightarrow>
        phase (state (fire tm p)) = previewOnly
        \<and> map row (rowElements (render ph (fire tm p)))
            = take PREVIEW_LIMIT (processedRows ph (fire tm p))
        \<and> pending (fire tm p)
            = remove1 tm (pending p) @
              [\<lparr>handle = nextHandle p, delay = 2000, due = max (now p) (due tm) + 2000,
                callback = RevealAll\<rparr>]
        \<and> renderAllTimer (fire tm p) = Some (nextHandle p))
   \<and> (t < t0 + length (rows (data pr)) \<longrightarrow>
        phase (state (advance t (mount t0 h0 pr))) = deferring)
   \<and> (t0 + length (rows (data pr)) \<le> t \<and> t < t0 + length (rows (data pr)) + 2000 \<longrightarrow>
        phase (state (advance t (mount t0 h0 pr))) = previewOnly
        \<and> map row (rowElements (render ph (advance t (mount t0 h0 pr))))
            = take 100 (rows (data pr))
        \<and> length (rowElements (render ph (advance t (mount t0 h0 pr)))) = 100
        \<and> pending (advance t (mount t0 h0 pr))
            = [\<lparr>handle = Suc h0, delay = 2000, due = t0 + length (rows (data pr)) + 2000,
                callback = RevealAll\<rparr>])
   \<and> (t0 + length (rows (data pr)) + 2000 \<le> t \<longrightarrow>
        phase (state (advance t (mount t0 h0 pr))) = full
        \<and> map row (rowElements (render ph (advance t (mount t0 h0 pr)))) = rows (data pr)
        \<and> pending (advance t (mount t0 h0 pr)) = [])"
proof -
  from assms have large: "\<not> length (rows (data pr)) \<le> PREVIEW_LIMIT * 2"
    by simp
  have flag: "map callback (pending (mount t0 h0 pr)) = [DeferDone False]"
    using large by (simp add: mount_eq)
  have leave: "phase (state (fire tm p)) = previewOnly
        \<and> map row (rowElements (render ph (fire tm p)))
            = take PREVIEW_LIMIT (processedRows ph (fire tm p))
        \<and> pending (fire tm p)
            = remove1 tm (pending p) @
              [\<lparr>handle = nextHandle p, delay = 2000, due = max (now p) (due tm) + 2000,
                callback = RevealAll\<rparr>]
        \<and> renderAllTimer (fire tm p) = Some (nextHandle p)"
    if "deferLogs (state p) \<and> callback tm = DeferDone False"
  proof -
    from that have f: "fire tm p =
        p\<lparr>state := (state p)\<lparr>deferLogs := False, renderAll := False\<rparr>,
          now := max (now p) (due tm),
          pending := remove1 tm (pending p) @
            [\<lparr>handle = nextHandle p, delay = 2000, due = max (now p) (due tm) + 2000,
              callback = RevealAll\<rparr>],
          nextHandle := Suc (nextHandle p),
          renderAllTimer := Some (nextHandle p)\<rparr>"
      using fire_DeferDone [of tm False p] by simp
    show ?thesis
      unfolding render_rows by (simp add: f phase_simps)
  qed
  have before: "phase (state (advance t (mount t0 h0 pr))) = deferring"
    if "t < t0 + length (rows (data pr))"
    using that by (simp add: advance_mount_early phase_simps) (simp add: mount_eq initialState_def)
  have preview: "phase (state (advance t (mount t0 h0 pr))) = previewOnly
        \<and> map row (rowElements (render ph (advance t (mount t0 h0 pr))))
            = take 100 (rows (data pr))
        \<and> length (rowElements (render ph (advance t (mount t0 h0 pr)))) = 100
        \<and> pending (advance t (mount t0 h0 pr))
            = [\<lparr>handle = Suc h0, delay = 2000, due = t0 + length (rows (data pr)) + 2000,
                callback = RevealAll\<rparr>]"
    if "t0 + length (rows (data pr)) \<le> t \<and> t < t0 + length (rows (data pr)) + 2000"
  proof -
    let ?p = "advance t (mount t0 h0 pr)"
    have st: "state ?p = initialState\<lparr>deferLogs := False, renderAll := False\<rparr>"
      and pe: "pending ?p = [\<lparr>handle = Suc h0, delay = 2000,
                  due = t0 + length (rows (data pr)) + 2000, callback = RevealAll\<rparr>]"
      and pr: "props ?p = pr"
      using that large by (simp_all add: advance_mount_preview) (simp add: mount_eq)
    have proc: "processedRows ph ?p = rows (data pr)"
      by (simp add: processedRows_initial st pr initialState_def)
    have shown: "map row (rowElements (render ph ?p)) = take 100 (rows (data pr))"
      unfolding render_rows by (simp add: st proc initialState_def PREVIEW_LIMIT_def)
    have "length (map row (rowElements (render ph ?p))) = 100"
      unfolding shown using assms by (simp add: PREVIEW_LIMIT_def)
    then have "length (rowElements (render ph ?p)) = 100"
      by simp
    with shown pe show ?thesis
      by (simp add: st phase_simps)
  qed
  have revealed: "phase (state (advance t (mount t0 h0 pr))) = full
        \<and> map row (rowElements (render ph (advance t (mount t0 h0 pr)))) = rows (data pr)
        \<and> pending (advance t (mount t0 h0 pr)) = []"
    if "t0 + length (rows (data pr)) + 2000 \<le> t"
  proof -
    let ?p = "advance t (mount t0 h0 pr)"
    have st: "state ?p = initialState\<lparr>deferLogs := False, renderAll := True\<rparr>"
      and pe: "pending ?p = []"
      and pr: "props ?p = pr"
      using that large by (simp_all add: advance_mount_revealed) (simp add: mount_eq)
    have proc: "processedRows ph ?p = rows (data pr)"
      by (simp add: processedRows_initial st pr initialState_def)
    have shown: "map row (rowElements (render ph ?p)) = rows (data pr)"
      unfolding render_rows by (simp add: st proc initialState_def)
    with pe show ?thesis
      by (simp add: st phase_simps)
  qed
  show ?thesis
    using flag leave before preview revealed by blast
qed

theorem large_row_set_previews_then_reveals_witness:
  "phase (state (advance 499 (mount 0 0 (logsProps (replicate 500 (logRow ''k'' ''e'' None)))))) = deferring
   \<and> phase (state (advance 500 (mount 0 0 (logsProps (replicate 500 (logRow ''k'' ''e'' None)))))) = previewOnly
   \<and> length (rowElements (render ''#''
        (advance 500 (mount 0 0 (logsProps (replicate 500 (logRow ''k'' ''e'' None))))))) = 100
   \<and> phase (state (advance 2499 (mount 0 0 (logsProps (replicate 500 (logRow ''k'' ''e'' None)))))) = previewOnly
   \<and> phase (state (advance 2500 (mount 0 0 (logsProps (replicate 500 (logRow ''k'' ''e'' None)))))) = full
   \<and> map row (rowElements (render ''#''
        (advance 2500 (mount 0 0 (logsProps (replicate 500 (logRow ''k'' ''e'' None)))))))
       = replicate 500 (logRow ''k'' ''e'' None)
   \<and> pending (mount 0 0 (logsProps (replicate 500 (logRow ''k'' ''e'' None))))
       = [\<lparr>handle = 0, delay = 500, due = 500, callback = DeferDone False\<rparr>]
   \<and> phase (state (fire \<lparr>handle = 0, delay = 500, due = 500, callback = DeferDone False\<rparr>
        (mount 0 0 (logsProps (replicate 500 (logRow ''k'' ''e'' None)))))) = previewOnly
   \<and> pending (fire \<lparr>handle = 0, delay = 500, due = 500, callback = DeferDone False\<rparr>
        (mount 0 0 (logsProps (replicate 500 (logRow ''k'' ''e'' None)))))
       = [\<lparr>handle = 1, delay = 2000, due = 2500, callback = RevealAll\<rparr>]"
proof -
  let ?pr = "logsProps (replicate 500 (logRow ''k'' ''e'' None))"
  let ?tm = "\<lparr>handle = 0, delay = 500, due = 500, callback = DeferDone False\<rparr>"
  have n: "length (rows (data ?pr)) = 500"
    by (simp add: logsProps_def logsModel_def)
  have large: "2 * PREVIEW_LIMIT < length (rows (data ?pr))"
    by (simp add: n PREVIEW_LIMIT_def)
  have t499: "499 < 0 + length (rows (data ?pr))"
    and t500: "0 + length (rows (data ?pr)) \<le> 500 \<and> 500 < 0 + length (rows (data ?pr)) + 2000"
    and t2499: "0 + length (rows (data ?pr)) \<le> 2499 \<and> 2499 < 0 + length (rows (data ?pr)) + 2000"
    and t2500: "0 + length (rows (data ?pr)) + 2000 \<le> 2500"
    by (simp_all add: n)
  have timer: "pending (mount 0 0 ?pr) = [?tm]"
    unfolding mount_eq n by (simp add: PREVIEW_LIMIT_def)
  have leaving: "deferLogs (state (mount 0 0 ?pr)) \<and> callback ?tm = DeferDone False"
    by (simp add: mount_eq initialState_def)
  have reveal: "remove1 ?tm (pending (mount 0 0 ?pr)) @
      [\<lparr>handle = nextHandle (mount 0 0 ?pr), delay = 2000,
        due = max (now (mount 0 0 ?pr)) (due ?tm) + 2000, callback = RevealAll\<rparr>]
      = [\<lparr>handle = 1, delay = 2000, due = 2500, callback = RevealAll\<rparr>]"
    unfolding timer by (simp add: mount_eq)
  note th = large_row_set_previews_then_reveals [OF large, of 0 0 "mount 0 0 ?pr" ?tm "''#''"]
  have a: "phase (state (advance 499 (mount 0 0 ?pr))) = deferring"
    using th [of 499] t499 by blast
  have b: "phase (state (advance 500 (mount 0 0 ?pr))) = previewOnly
      \<and> length (rowElements (render ''#'' (advance 500 (mount 0 0 ?pr)))) = 100"
    using th [of 500] t500 by blast
  have c: "phase (state (advance 2499 (mount 0 0 ?pr))) = previewOnly"
    using th [of 2499] t2499 by blast
  have d: "phase (state (advance 2500 (mount 0 0 ?pr))) = full
      \<and> map row (rowElements (render ''#'' (advance 2500 (mount 0 0 ?pr)))) = rows (data ?pr)"
    using th [of 2500] t2500 by blast
  have f: "phase (state (fire ?tm (mount 0 0 ?pr))) = previewOnly
      \<and> pending (fire ?tm (mount 0 0 ?pr))
          = remove1 ?tm (pending (mount 0 0 ?pr)) @
            [\<lparr>handle = nextHandle (mount 0 0 ?pr), delay = 2000,
              due = max (now (mount 0 0 ?pr)) (due ?tm) + 2000, callback = RevealAll\<rparr>]"
    using th [of 0] leaving by blast
  have r: "rows (data ?pr) = replicate 500 (logRow ''k'' ''e'' None)"
    by (simp add: logsProps_def logsModel_def)
  have e: "map row (rowElements (render ''#'' (advance 2500 (mount 0 0 ?pr))))
      = replicate 500 (logRow ''k'' ''e'' None)"
    using d by (simp only: r)
  show ?thesis
    using a b c d e f timer unfolding reveal by blast
qed

text \<open>
  C7. The timer set on mounting, which ends the deferring phase, has as its delay the
  number of rows of the data at that moment, taken as milliseconds: the component is
  deferring at every time before the clock has advanced by that number, and no longer
  deferring from then on.
\<close>
theorem defer_delay_is_row_count:
  "pending (mount t0 h0 pr)
     = [\<lparr>handle = h0, delay = length (rows (data pr)), due = t0 + length (rows (data pr)),
         callback = DeferDone (length (rows (data pr)) \<le> PREVIEW_LIMIT * 2)\<rparr>]
   \<and> deferLogsTimer (mount t0 h0 pr) = Some h0
   \<and> (t < t0 + length (rows (data pr)) \<longrightarrow> deferLogs (state (advance t (mount t0 h0 pr))))
   \<and> (t0 + length (rows (data pr)) \<le> t \<longrightarrow> \<not> deferLogs (state (advance t (mount t0 h0 pr))))"
proof -
  have before: "deferLogs (state (advance t (mount t0 h0 pr)))"
    if "t < t0 + length (rows (data pr))"
    using that by (simp add: advance_mount_early) (simp add: mount_eq initialState_def)
  have after: "\<not> deferLogs (state (advance t (mount t0 h0 pr)))"
    if due: "t0 + length (rows (data pr)) \<le> t"
  proof (cases "length (rows (data pr)) \<le> PREVIEW_LIMIT * 2")
    case True
    then show ?thesis using due by (simp add: advance_mount_all)
  next
    case False
    show ?thesis
    proof (cases "t < t0 + length (rows (data pr)) + 2000")
      case True
      with False due show ?thesis by (simp add: advance_mount_preview)
    next
      case False
      with \<open>\<not> length (rows (data pr)) \<le> PREVIEW_LIMIT * 2\<close> show ?thesis
        by (simp add: advance_mount_revealed)
    qed
  qed
  show ?thesis
    using before after by (simp add: mount_eq)
qed

theorem defer_delay_is_row_count_witness:
  "map delay (pending (mount 0 0 (logsProps (replicate 500 (logRow ''k'' ''e'' None))))) = [500]
   \<and> deferLogs (state (advance 499 (mount 0 0 (logsProps (replicate 500 (logRow ''k'' ''e'' None))))))
   \<and> \<not> deferLogs (state (advance 500 (mount 0 0 (logsProps (replicate 500 (logRow ''k'' ''e'' None))))))"
  using defer_delay_is_row_count [of 0 0 "logsProps (replicate 500 (logRow ''k'' ''e'' None))" 499]
        defer_delay_is_row_count [of 0 0 "logsProps (replicate 500 (logRow ''k'' ''e'' None))" 500]
  by (simp add: logsProps_def logsModel_def)

text \<open>
  C8. When the component is unmounted, at whatever point of its life after mounting, no
  timer remains pending: the defer timer and the reveal-all timer are cancelled if they
  were set and had not fired. However far the clock then runs, no callback runs, and the
  state stays what it was at unmounting.
\<close>
theorem unmount_cancels_timers:
  "pending (componentWillUnmount (run L es (mount t0 h0 pr))) = []
   \<and> advance t (componentWillUnmount (run L es (mount t0 h0 pr)))
       = (componentWillUnmount (run L es (mount t0 h0 pr)))
           \<lparr>now := max (now (run L es (mount t0 h0 pr))) t\<rparr>
   \<and> state (advance t (componentWillUnmount (run L es (mount t0 h0 pr))))
       = state (run L es (mount t0 h0 pr))"
proof -
  let ?p = "run L es (mount t0 h0 pr)"
  have owned: "ownedTimers ?p"
    by (intro run_ownedTimers mount_ownedTimers)
  then have none: "pending (componentWillUnmount ?p) = []"
    by (rule unmount_pending)
  have clock: "now (componentWillUnmount ?p) = now ?p"
    by (simp add: componentWillUnmount_def clearTimeout_def split: option.splits)
  have idle: "advance t (componentWillUnmount ?p)
      = (componentWillUnmount ?p)\<lparr>now := max (now ?p) t\<rparr>"
    using advance_idle [OF none, of t] by (simp add: clock)
  show ?thesis
    using none idle by (simp add: unmount_state)
qed

theorem unmount_cancels_timers_witness:
  "pending (mount 0 0 (logsProps (replicate 500 (logRow ''k'' ''e'' None)))) \<noteq> []
   \<and> pending (componentWillUnmount (mount 0 0 (logsProps (replicate 500 (logRow ''k'' ''e'' None))))) = []
   \<and> deferLogs (state (advance 10000
        (componentWillUnmount (mount 0 0 (logsProps (replicate 500 (logRow ''k'' ''e'' None)))))))
   \<and> \<not> deferLogs (state (advance 10000 (mount 0 0 (logsProps (replicate 500 (logRow ''k'' ''e'' None))))))
   \<and> pending (run (\<lambda>l. l) [Wait 600] (mount 0 0 (logsProps (replicate 500 (logRow ''k'' ''e'' None)))))
       = [\<lparr>handle = 1, delay = 2000, due = 2500, callback = RevealAll\<rparr>]
   \<and> pending (componentWillUnmount
        (run (\<lambda>l. l) [Wait 600] (mount 0 0 (logsProps (replicate 500 (logRow ''k'' ''e'' None)))))) = []
   \<and> phase (state (advance 10000 (componentWillUnmount
        (run (\<lambda>l. l) [Wait 600] (mount 0 0 (logsProps (replicate 500 (logRow ''k'' ''e'' None))))))))
       = previewOnly
   \<and> phase (state (advance 10000
        (run (\<lambda>l. l) [Wait 600] (mount 0 0 (logsProps (replicate 500 (logRow ''k'' ''e'' None)))))))
       = full"
proof -
  let ?pr = "logsProps (replicate 500 (logRow ''k'' ''e'' None))"
  let ?q = "run (\<lambda>l. l) [Wait 600] (mount 0 0 ?pr)"
  have n: "length (rows (data ?pr)) = 500"
    by (simp add: logsProps_def logsModel_def)
  have large: "\<not> length (rows (data ?pr)) \<le> PREVIEW_LIMIT * 2"
    by (simp add: n PREVIEW_LIMIT_def)
  have fired: "\<not> deferLogs (state (advance 10000 (mount 0 0 ?pr)))"
    using large by (subst advance_mount_revealed) (simp_all add: n)
  have mounted: "pending (mount 0 0 ?pr) \<noteq> []" and deferring: "deferLogs (state (mount 0 0 ?pr))"
    by (simp_all add: mount_eq initialState_def)
  have now0: "now (mount 0 0 ?pr) = 0"
    by (simp add: mount_eq)
  have run_eq: "?q = advance 600 (mount 0 0 ?pr)"
    by (simp add: now0)
  let ?rv = "\<lparr>handle = 1, delay = 2000, due = 2500, callback = RevealAll\<rparr>"
  have a: "advance 600 (mount 0 0 ?pr) =
      (mount 0 0 ?pr)\<lparr>state := initialState\<lparr>deferLogs := False, renderAll := False\<rparr>,
                       now := 600, pending := [?rv], nextHandle := Suc (Suc 0),
                       renderAllTimer := Some (Suc 0)\<rparr>"
    using advance_mount_preview [OF large, of 0 600 0] by (simp add: n)
  let ?a = "advance 600 (mount 0 0 ?pr)"
  have a_pending: "pending ?a = [?rv]"
    and a_phase: "phase (state ?a) = previewOnly"
    by (simp_all add: a phase_simps)
  have "advance 10000 ?a = advance 10000 (fire ?rv ?a)"
    using a_pending by (intro advance_single_due) simp_all
  also have "\<dots> = (fire ?rv ?a)\<lparr>now := max (now (fire ?rv ?a)) 10000\<rparr>"
    by (intro advance_idle) (simp add: fire_RevealAll a_pending)
  finally have a_revealed: "phase (state (advance 10000 ?a)) = full"
    by (simp add: fire_RevealAll a phase_simps)
  have u1: "pending (componentWillUnmount (mount 0 0 ?pr)) = []"
    and u2: "state (advance 10000 (componentWillUnmount (mount 0 0 ?pr))) = state (mount 0 0 ?pr)"
    using unmount_cancels_timers [of "\<lambda>l. l" "[]" 0 0 ?pr 10000]
    unfolding run.simps by blast+
  have u3: "pending (componentWillUnmount ?a) = []"
    and u4: "state (advance 10000 (componentWillUnmount ?a)) = state ?a"
    using unmount_cancels_timers [of "\<lambda>l. l" "[Wait 600]" 0 0 ?pr 10000]
    unfolding run_eq by blast+
  show ?thesis
    unfolding run_eq u2 u4
    using fired mounted deferring a_pending a_phase a_revealed u1 u3 by blast
qed

text \<open>
  C9 (as the code has it). In every state of the deferring phase no \<open>Row\<close> is rendered. The
  placeholder is shown when the data has at least one row, and then reads "Rendering",
  the number of processed rows (after filtering and deduplication) and "rows...". With no
  row in the data there is no placeholder.
\<close>
theorem deferring_shows_placeholder:
  assumes "phase (state p) = deferring"
  shows "rowElements (render ph p) = []
   \<and> placeholder (render ph p)
       = (if rows (data (props p)) = [] then None
          else Some (''Rendering '' @ decimal (length (processedRows ph p)) @ '' rows...''))"
  using assms
  by (simp add: phase_simps render_deferring render_placeholder del: decimal.simps)

theorem deferring_shows_placeholder_witness:
  "phase (state (mount 0 0 (logsProps [logRow ''1'' ''a'' None, logRow ''2'' ''b'' None]))) = deferring
   \<and> rowElements (render ''#'' (mount 0 0 (logsProps [logRow ''1'' ''a'' None, logRow ''2'' ''b'' None]))) = []
   \<and> placeholder (render ''#'' (mount 0 0 (logsProps [logRow ''1'' ''a'' None, logRow ''2'' ''b'' None])))
       = Some ''Rendering 2 rows...''"
proof -
  let ?p = "mount 0 0 (logsProps [logRow ''1'' ''a'' None, logRow ''2'' ''b'' None])"
  have ph: "phase (state ?p) = deferring"
    by (simp add: mount_eq initialState_def phase_def)
  have proc: "processedRows ''#'' ?p = [logRow ''1'' ''a'' None, logRow ''2'' ''b'' None]"
    by (subst processedRows_initial) (simp_all add: mount_eq initialState_def logsProps_def logsModel_def)
  show ?thesis
    using deferring_shows_placeholder [OF ph, of "''#''"] ph
    by (simp add: proc) (simp add: mount_eq logsProps_def logsModel_def)
qed

text \<open>
  The claim without the condition on the data fails: mounted with no rows, the component
  is deferring and shows no placeholder (it shows the notice that no logs were found).
\<close>
theorem deferring_without_rows_counterexample:
  "phase (state (mount 0 0 (logsProps []))) = deferring
   \<and> placeholder (render ''#'' (mount 0 0 (logsProps []))) = None
   \<and> noLogsFound (render ''#'' (mount 0 0 (logsProps [])))"
  by (simp add: render_def mount_eq initialState_def phase_def logsProps_def logsModel_def
        Let_def)

text \<open>
  C10. Selecting the strategy that is active switches deduplication off, and selecting
  any other strategy makes it the active one: in every state, \<open>onChangeDedup s\<close> sets the
  strategy to none when it was \<open>s\<close> and to \<open>s\<close> otherwise, and changes nothing else.
\<close>
theorem onChangeDedup_toggles:
  "onChangeDedup s p = p\<lparr>state := (state p)\<lparr>dedup := (if dedup (state p) = s then none else s)\<rparr>\<rparr>"
  by (simp add: onChangeDedup_def setState_def componentDidUpdate_same_defer)

theorem onChangeDedup_toggles_witness:
  "dedup (state (onChangeDedup exact (mount 0 0 (logsProps [])))) = exact
   \<and> dedup (state (onChangeDedup exact (onChangeDedup exact (mount 0 0 (logsProps []))))) = none
   \<and> dedup (state (onChangeDedup numbers (onChangeDedup exact (mount 0 0 (logsProps []))))) = numbers"
  using onChangeDedup_toggles [of exact "mount 0 0 (logsProps [])"]
        onChangeDedup_toggles [of exact "onChangeDedup exact (mount 0 0 (logsProps []))"]
        onChangeDedup_toggles [of numbers "onChangeDedup exact (mount 0 0 (logsProps []))"]
  by (simp add: mount_def construct_def componentDidMount_def setTimeout_def initialState_def
        logsProps_def logsModel_def PREVIEW_LIMIT_def)

end
